theory Spec2Isabelle
  imports Complex_Main "HOL-Library.Word"
begin

unbundle bit_operations_syntax

section \<open>The battle simulation of \<open>src/components/spin-blade.tsx\<close>\<close>

text \<open>
  The component keeps its simulation in two mutable references (\<open>simRef\<close>, \<open>rngRef\<close>) and
  reads the roster (\<open>movies\<close>) and the \<open>settings\<close> from its React state. The functions
  \<open>mulberry32\<close>, \<open>spawnTops\<close>, \<open>start\<close> and \<open>physicsStep\<close> are embedded below with explicit
  state passing.

  Numbers. A JavaScript number that holds a physical quantity is modelled as an exact
  \<open>real\<close>: rounding of doubles is not part of the model. The only arithmetic step of
  \<open>physicsStep\<close> whose exact-arithmetic reading is undefined is the division by \<open>dist\<close>
  in the wall pass when \<open>dist = 0\<close> (JavaScript yields \<open>NaN\<close> for \<open>0 / 0\<close>); there the model
  returns \<open>None\<close>. The counter of the generator is an integer-valued double: it is modelled
  as a \<open>nat\<close>, with the rounding of a double written out (\<open>roundDouble\<close>), and the 32-bit
  conversions of the bitwise operators as \<open>32 word\<close>.
\<close>

subsection \<open>Data\<close>

type_synonym u32 = "32 word"

text \<open>An entry of the roster \<open>movies\<close>; the field \<open>id\<close> is called \<open>id_str\<close> here.\<close>

record movie =
  id_str :: string
  label :: string
  color :: string

text \<open>The type \<open>Top\<close>: the three roster fields and the physical state.\<close>

record top = movie +
  x :: real
  y :: real
  vx :: real
  vy :: real
  ang :: real
  vang :: real
  r :: real
  hp :: real
  alive :: bool

record settings =
  arenaR :: real
  friction :: real
  spinFriction :: real
  damage :: real
  topR :: real
  seed :: int

text \<open>The object held by \<open>simRef\<close>.\<close>

record sim =
  running :: bool
  tops :: "top list"
  winner :: "string option"

text \<open>
  The function held by \<open>rngRef\<close>: initially \<open>Math.random\<close>, after \<open>spawnTops\<close> a closure of
  \<open>mulberry32\<close> with its counter \<open>t\<close>.
\<close>

datatype rng_fn = MathRandom | Mulberry32 nat

record refs =
  simRef :: sim
  rngRef :: rng_fn

subsection \<open>The seeded generator \<open>mulberry32\<close>\<close>

text \<open>\<open>n >>> 0\<close> and the operand conversion of \<open>^\<close>, \<open>|\<close>, \<open>>>>\<close>, \<open>Math.imul\<close> on an integer.\<close>

definition toUint32 :: "int \<Rightarrow> u32" where
  "toUint32 n = word_of_int n"

text \<open>The number of binary digits of a natural number.\<close>

fun bitlen :: "nat \<Rightarrow> nat" where
  "bitlen n = (if n = 0 then 0 else Suc (bitlen (n div 2)))"

declare bitlen.simps [simp del]

text \<open>
  The double nearest to a non-negative integer (53 significant bits, ties to even): the
  result of \<open>t += 0x6D2B79F5\<close> on doubles is \<open>roundDouble\<close> of the exact sum.
\<close>

definition roundDouble :: "nat \<Rightarrow> nat" where
  "roundDouble v =
     (let e = bitlen v in
      if e \<le> 53 then v
      else
        let sh = e - 53;
            q = v div 2 ^ sh;
            rm = v mod 2 ^ sh;
            half = 2 ^ (sh - 1)
        in (if half < rm \<or> (rm = half \<and> odd q) then q + 1 else q) * 2 ^ sh)"

text \<open>
  The two rounds of the closure, on the 32-bit conversion of \<open>t\<close>:
  \<open>r = Math.imul(t ^ (t >>> 15), 1 | t); r ^= r + Math.imul(r ^ (r >>> 7), 61 | r);\<close>
  and the value \<open>r ^ (r >>> 14)\<close>.
\<close>

definition mix32 :: "u32 \<Rightarrow> u32" where
  "mix32 t =
     (let r = (t XOR drop_bit 15 t) * (1 OR t);
          r = r XOR (r + (r XOR drop_bit 7 r) * (61 OR r))
      in r XOR drop_bit 14 r)"

text \<open>\<open>mulberry32(seed)\<close>: the initial counter \<open>t = seed >>> 0\<close> of the returned closure.\<close>

definition mulberry32 :: "int \<Rightarrow> nat" where
  "mulberry32 sd = unat (toUint32 sd)"

text \<open>One call of the closure: the returned value and the new counter.\<close>

definition rng_call :: "nat \<Rightarrow> real \<times> nat" where
  "rng_call t =
     (let t = roundDouble (t + 0x6D2B79F5)
      in (real (unat (mix32 (of_nat t))) / 4294967296, t))"

text \<open>The counter after \<open>k\<close> calls, and the value returned by call number \<open>k + 1\<close>.\<close>

definition rng_state :: "int \<Rightarrow> nat \<Rightarrow> nat" where
  "rng_state sd k = ((\<lambda>t. snd (rng_call t)) ^^ k) (mulberry32 sd)"

definition draw :: "int \<Rightarrow> nat \<Rightarrow> real" where
  "draw sd k = fst (rng_call (rng_state sd k))"

text \<open>
  The generator as the specification words it: a 32-bit state advanced by the additive
  constant on each call (with wrap-around), mixed through the two rounds and divided by
  \<open>2^32\<close>.
\<close>

definition gen32_next :: "u32 \<Rightarrow> real \<times> u32" where
  "gen32_next s = (let s = s + 0x6D2B79F5 in (real (unat (mix32 s)) / 2 ^ 32, s))"

definition gen32_draw :: "int \<Rightarrow> nat \<Rightarrow> real" where
  "gen32_draw sd k =
     fst (gen32_next (((\<lambda>s. snd (gen32_next s)) ^^ k) (toUint32 sd)))"

subsection \<open>\<open>spawnTops\<close> and \<open>start\<close>\<close>

text \<open>
  The callback of \<open>movies.map\<close>, for the movie \<open>m\<close> at index \<open>i\<close>, with the counter of the
  generator passed through its five calls.
\<close>

definition spawnTop :: "real \<Rightarrow> real \<Rightarrow> real \<Rightarrow> movie \<Rightarrow> nat \<Rightarrow> nat \<Rightarrow> top \<times> nat" where
  "spawnTop rr angleStep tR m i t0 =
     (let (u1, t1) = rng_call t0;
          a = real i * angleStep + u1 * 0.2;
          (u2, t2) = rng_call t1;
          rad = rr * 0.85 + rr * 0.15 * u2;
          (u3, t3) = rng_call t2;
          speed = 120 + 80 * u3;
          (u4, t4) = rng_call t3;
          dir = a + pi + (u4 - 0.5) * 0.6;
          (u5, t5) = rng_call t4
      in (\<lparr>id_str = id_str m, label = label m, color = color m,
            x = cos a * rad, y = sin a * rad,
            vx = cos dir * speed, vy = sin dir * speed,
            ang = a, vang = (u5 - 0.5) * 14, r = tR,
            hp = 100, alive = True\<rparr>, t5))"

fun spawnMap :: "real \<Rightarrow> real \<Rightarrow> real \<Rightarrow> nat \<Rightarrow> nat \<Rightarrow> movie list \<Rightarrow> top list \<times> nat" where
  "spawnMap rr angleStep tR i t [] = ([], t)"
| "spawnMap rr angleStep tR i t (m # ms) =
     (let (tp, t') = spawnTop rr angleStep tR m i t;
          (rest, t'') = spawnMap rr angleStep tR (Suc i) t' ms
      in (tp # rest, t''))"

definition spawnTops :: "movie list \<Rightarrow> settings \<Rightarrow> refs \<Rightarrow> refs" where
  "spawnTops movies s rf =
     (let t = mulberry32 (seed s);
          n = length movies;
          rr = arenaR s - topR s - 6;
          angleStep = (2 * pi) / real (max 1 n);
          (arr, t') = spawnMap rr angleStep (topR s) 0 t movies
      in rf\<lparr>rngRef := Mulberry32 t',
            simRef := (simRef rf)\<lparr>tops := arr, winner := None\<rparr>\<rparr>)"

text \<open>
  \<open>start\<close>. The call \<open>tick()\<close> at its end only schedules the animation frames that call
  \<open>physicsStep\<close>; it changes neither reference by itself.
\<close>

definition start :: "movie list \<Rightarrow> settings \<Rightarrow> refs \<Rightarrow> refs" where
  "start movies s rf =
     (if length movies < 2 then rf
      else
        let rf' = spawnTops movies s rf
        in rf'\<lparr>simRef := (simRef rf')\<lparr>running := True\<rparr>\<rparr>)"

subsection \<open>\<open>physicsStep\<close>\<close>

definition FIXED_DT :: real where
  "FIXED_DT = 1 / 120"

definition WALL_RESTITUTION :: real where
  "WALL_RESTITUTION = 0.85"

definition COLL_RESTITUTION :: real where
  "COLL_RESTITUTION = 0.8"

text \<open>\<open>Math.hypot\<close> of two arguments.\<close>

definition hypot :: "real \<Rightarrow> real \<Rightarrow> real" where
  "hypot a b = sqrt (a * a + b * b)"

text \<open>The body of the first loop: integration and damping of one top.\<close>

definition integrateTop :: "real \<Rightarrow> settings \<Rightarrow> top \<Rightarrow> top" where
  "integrateTop dt s t =
     (if alive t then
        t\<lparr>x := x t + vx t * dt, y := y t + vy t * dt, ang := ang t + vang t * dt,
          vx := vx t * max 0 (1 - friction s * dt),
          vy := vy t * max 0 (1 - friction s * dt),
          vang := vang t * max 0 (1 - spinFriction s * dt)\<rparr>
      else t)"

text \<open>The body of \<open>if (dist > limit)\<close> in the second loop.\<close>

definition wallBounce :: "settings \<Rightarrow> real \<Rightarrow> real \<Rightarrow> top \<Rightarrow> top" where
  "wallBounce s dist' limit t =
     (let nx = x t / dist'; ny = y t / dist';
          pen = dist' - limit;
          vn = vx t * nx + vy t * ny;
          vtX = vx t - vn * nx; vtY = vy t - vn * ny;
          rvx = vtX - vn * nx * WALL_RESTITUTION;
          rvy = vtY - vn * ny * WALL_RESTITUTION;
          impact = \<bar>vn\<bar>
      in t\<lparr>x := x t - nx * pen, y := y t - ny * pen, vx := rvx, vy := rvy,
            hp := hp t - (impact * 0.03) * damage s\<rparr>)"

text \<open>The condition of the ring-out test of the second loop.\<close>

definition ringOut :: "settings \<Rightarrow> real \<Rightarrow> top \<Rightarrow> bool" where
  "ringOut s dist' t =
     (dist' > arenaR s + 40 \<or> hp t \<le> 0 \<or> (hypot (vx t) (vy t) < 5 \<and> \<bar>vang t\<bar> < 0.2))"

text \<open>
  The body of the second loop for one top. \<open>None\<close>: the division by \<open>dist = 0\<close> makes
  the fields of the top \<open>NaN\<close>.
\<close>

definition wallTop :: "settings \<Rightarrow> top \<Rightarrow> top option" where
  "wallTop s t =
     (if alive t then
        let dist' = hypot (x t) (y t);
            limit = arenaR s - r t - 4
        in if dist' > limit then
             (if dist' = 0 then None
              else
                let t' = wallBounce s dist' limit t
                in Some (if ringOut s dist' t' then t'\<lparr>alive := False\<rparr> else t'))
           else Some (if ringOut s dist' t then t\<lparr>alive := False\<rparr> else t)
      else Some t)"

fun wallPass :: "settings \<Rightarrow> top list \<Rightarrow> top list option" where
  "wallPass s [] = Some []"
| "wallPass s (t # ts) =
     (case wallTop s t of
        None \<Rightarrow> None
      | Some t' \<Rightarrow> (case wallPass s ts of None \<Rightarrow> None | Some ts' \<Rightarrow> Some (t' # ts')))"

text \<open>The divisor \<open>d\<close> and the normal \<open>(nx, ny)\<close> of a pair.\<close>

definition pairDist :: "top \<Rightarrow> top \<Rightarrow> real" where
  "pairDist a b =
     (let dx = x b - x a; dy = y b - y a; d2 = dx * dx + dy * dy
      in sqrt (max (1 / 1000000) d2))"

definition pairNormal :: "top \<Rightarrow> top \<Rightarrow> real \<times> real" where
  "pairNormal a b = ((x b - x a) / pairDist a b, (y b - y a) / pairDist a b)"

text \<open>The body of the inner loop of the third pass for the tops \<open>a\<close> and \<open>b\<close>.\<close>

definition pairCollide :: "settings \<Rightarrow> top \<Rightarrow> top \<Rightarrow> top \<times> top" where
  "pairCollide s a b =
     (let dx = x b - x a; dy = y b - y a; d2 = dx * dx + dy * dy; rsum = r a + r b
      in if d2 < rsum * rsum then
           let d = pairDist a b;
               (nx, ny) = pairNormal a b;
               pen = rsum - d; half = pen / 2;
               rvx = vx b - vx a; rvy = vy b - vy a; relN = rvx * nx + rvy * ny;
               jimp = - (1 + COLL_RESTITUTION) * relN / 2;
               ix = jimp * nx; iy = jimp * ny;
               kick = (rvx * - ny + rvy * nx) * 0.01;
               impact = \<bar>relN\<bar>;
               dmg = (impact * 0.04) * damage s
           in (a\<lparr>x := x a - nx * half, y := y a - ny * half,
                  vx := vx a - ix, vy := vy a - iy,
                  vang := vang a + kick, hp := hp a - dmg\<rparr>,
               b\<lparr>x := x b + nx * half, y := y b + ny * half,
                  vx := vx b + ix, vy := vy b + iy,
                  vang := vang b - kick, hp := hp b - dmg\<rparr>)
         else (a, b))"

text \<open>One iteration of the inner loop (index \<open>j\<close>), and the loops over \<open>j\<close> and \<open>i\<close>.\<close>

definition pairAt :: "settings \<Rightarrow> nat \<Rightarrow> nat \<Rightarrow> top list \<Rightarrow> top list" where
  "pairAt s i j ts =
     (if alive (ts ! j) then
        (case pairCollide s (ts ! i) (ts ! j) of (a', b') \<Rightarrow> ts[i := a', j := b'])
      else ts)"

definition pairInner :: "settings \<Rightarrow> nat \<Rightarrow> top list \<Rightarrow> top list" where
  "pairInner s i ts = fold (pairAt s i) [Suc i..<length ts] ts"

definition pairOuter :: "settings \<Rightarrow> nat \<Rightarrow> top list \<Rightarrow> top list" where
  "pairOuter s i ts = (if alive (ts ! i) then pairInner s i ts else ts)"

definition pairPass :: "settings \<Rightarrow> top list \<Rightarrow> top list" where
  "pairPass s ts = fold (pairOuter s) [0..<length ts] ts"

text \<open>The winner check: \<open>alive[0]?.label || null\<close> is \<open>null\<close> also for an empty label.\<close>

definition checkWinner :: "sim \<Rightarrow> sim" where
  "checkWinner sm =
     (let al = filter alive (tops sm)
      in if length al \<le> 1 then
           sm\<lparr>running := False,
              winner := (case al of
                           [] \<Rightarrow> None
                         | t # _ \<Rightarrow> (if label t = [] then None else Some (label t)))\<rparr>
         else sm)"

definition physicsStep :: "real \<Rightarrow> settings \<Rightarrow> sim \<Rightarrow> sim option" where
  "physicsStep dt s sm =
     (case wallPass s (map (integrateTop dt s) (tops sm)) of
        None \<Rightarrow> None
      | Some ts \<Rightarrow> Some (checkWinner (sm\<lparr>tops := pairPass s ts\<rparr>)))"

text \<open>\<open>k\<close> successive calls of \<open>physicsStep\<close> with the same \<open>dt\<close>.\<close>

fun steps :: "nat \<Rightarrow> real \<Rightarrow> settings \<Rightarrow> sim \<Rightarrow> sim option" where
  "steps 0 dt s sm = Some sm"
| "steps (Suc k) dt s sm =
     (case physicsStep dt s sm of None \<Rightarrow> None | Some sm' \<Rightarrow> steps k dt s sm')"

subsection \<open>Concrete data\<close>

text \<open>
  The initial value of the \<open>settings\<close> state, the initial values of the two references, and
  two roster entries with fixed identifiers (the component draws them with \<open>uid()\<close>).
\<close>

definition defaultSettings :: settings where
  "defaultSettings =
     \<lparr>arenaR = 250, friction = 0.15, spinFriction = 0.2, damage = 1, topR = 26, seed = 1337\<rparr>"

definition refs0 :: refs where
  "refs0 = \<lparr>simRef = \<lparr>running = False, tops = [], winner = None\<rparr>, rngRef = MathRandom\<rparr>"

definition movieA :: movie where
  "movieA = \<lparr>id_str = ''a1'', label = ''Inception'', color = ''#22c55e''\<rparr>"

definition movieB :: movie where
  "movieB = \<lparr>id_str = ''b2'', label = ''The Matrix'', color = ''#3b82f6''\<rparr>"

text \<open>A top of the movie \<open>m\<close> with radius 26 on the horizontal axis, moving along it.\<close>

definition topOnAxis :: "movie \<Rightarrow> real \<Rightarrow> real \<Rightarrow> real \<Rightarrow> real \<Rightarrow> real \<Rightarrow> bool \<Rightarrow> top" where
  "topOnAxis m px pvx pang pvang php pal =
     \<lparr>id_str = id_str m, label = label m, color = color m,
      x = px, y = 0, vx = pvx, vy = 0, ang = pang, vang = pvang, r = 26,
      hp = php, alive = pal\<rparr>"

text \<open>
  Two tops that overlap after the integration; the first one has one health point left.
  \<open>duel1\<close> is the state after one step from \<open>duel0\<close>.
\<close>

definition duel0 :: sim where
  "duel0 =
     \<lparr>running = True,
      tops = [topOnAxis movieA 0 120 0 6 1 True, topOnAxis movieB 3 0 0 6 100 True],
      winner = None\<rparr>"

definition duel1 :: sim where
  "duel1 =
     \<lparr>running = True,
      tops = [topOnAxis movieA (- 24) (2397 / 200) (1 / 20) (599 / 100) (- 1897 / 500) True,
              topOnAxis movieB 28 (21573 / 200) (1 / 20) (599 / 100) (47603 / 500) True],
      winner = None\<rparr>"

text \<open>
  Two tops of which the second neither moves nor spins. \<open>stalled1\<close> is the state after
  one step from \<open>stalled0\<close>.
\<close>

definition stalled0 :: sim where
  "stalled0 =
     \<lparr>running = True,
      tops = [topOnAxis movieA 0 120 0 6 100 True, topOnAxis movieB 3 0 0 0 100 True],
      winner = None\<rparr>"

definition stalled1 :: sim where
  "stalled1 =
     \<lparr>running = False,
      tops = [topOnAxis movieA 1 (2397 / 20) (1 / 20) (599 / 100) 100 True,
              topOnAxis movieB 3 0 0 0 100 False],
      winner = Some ''Inception''\<rparr>"

text \<open>
  Two tops that neither move nor spin. \<open>bothStalled1\<close> is the state after one step from
  \<open>bothStalled0\<close>.
\<close>

definition bothStalled0 :: sim where
  "bothStalled0 =
     \<lparr>running = True,
      tops = [topOnAxis movieA 0 0 0 0 100 True, topOnAxis movieB 100 0 0 0 100 True],
      winner = None\<rparr>"

definition bothStalled1 :: sim where
  "bothStalled1 =
     \<lparr>running = False,
      tops = [topOnAxis movieA 0 0 0 0 100 False, topOnAxis movieB 100 0 0 0 100 False],
      winner = None\<rparr>"



text \<open>Two tops whose centres are \<open>0.0005\<close> apart, the first moving towards the second.\<close>

definition closeA :: top where
  "closeA = topOnAxis movieA 0 10 0 6 100 True"

definition closeB :: top where
  "closeB = topOnAxis movieB (1 / 2000) 0 0 6 100 True"

section \<open>The generator\<close>

lemma bitlen_le: "v < 2 ^ n \<Longrightarrow> bitlen v \<le> n"
proof (induction n arbitrary: v)
  case 0
  then show ?case by (simp add: bitlen.simps)
next
  case (Suc n)
  have "v div 2 < 2 ^ n" using Suc.prems by simp
  then have "bitlen (v div 2) \<le> n" by (rule Suc.IH)
  then show ?case by (subst bitlen.simps) simp
qed

lemma bitlen_gt: "2 ^ n \<le> v \<Longrightarrow> n < bitlen v"
proof (induction n arbitrary: v)
  case 0
  then show ?case by (subst bitlen.simps) simp
next
  case (Suc n)
  have "2 ^ n \<le> v div 2" using Suc.prems by simp
  then have "n < bitlen (v div 2)" by (rule Suc.IH)
  moreover have "(0::nat) < 2 ^ Suc n" by simp
  then have "v \<noteq> 0" using Suc.prems by linarith
  ultimately show ?case by (subst bitlen.simps) simp
qed

lemma roundDouble_exact: "v < 2 ^ 53 \<Longrightarrow> roundDouble v = v"
  using bitlen_le [of v 53] by (simp add: roundDouble_def)

lemma fst_rng_call:
  "fst (rng_call t) = real (unat (mix32 (of_nat (roundDouble (t + 0x6D2B79F5))))) / 4294967296"
  by (simp only: rng_call_def Let_def fst_conv)

lemma snd_rng_call: "snd (rng_call t) = roundDouble (t + 0x6D2B79F5)"
  by (simp only: rng_call_def Let_def snd_conv)

lemma fst_gen32_next:
  "fst (gen32_next s) = real (unat (mix32 (s + 0x6D2B79F5))) / 4294967296"
  by (simp add: gen32_next_def Let_def)

lemma snd_gen32_next: "snd (gen32_next s) = s + 0x6D2B79F5"
  by (simp only: gen32_next_def Let_def snd_conv)

lemma rng_state_Suc: "rng_state sd (Suc k) = roundDouble (rng_state sd k + 0x6D2B79F5)"
  by (simp only: rng_state_def funpow.simps o_apply snd_rng_call)

lemma rng_state_exact:
  "mulberry32 sd + k * 0x6D2B79F5 < 2 ^ 53 \<Longrightarrow>
   rng_state sd k = mulberry32 sd + k * 0x6D2B79F5"
proof (induction k)
  case 0
  then show ?case by (simp add: rng_state_def)
next
  case (Suc k)
  then have "rng_state sd k = mulberry32 sd + k * 0x6D2B79F5" by simp
  moreover have "mulberry32 sd + k * 0x6D2B79F5 + 0x6D2B79F5 < 2 ^ 53"
    using Suc.prems by simp
  ultimately show ?case
    by (simp add: rng_state_Suc roundDouble_exact)
qed

lemma gen32_state: "((\<lambda>s. snd (gen32_next s)) ^^ k) s = s + of_nat k * 0x6D2B79F5"
  by (induction k) (simp_all add: snd_gen32_next algebra_simps)

lemma mulberry32_less: "mulberry32 sd < 2 ^ 32"
proof -
  have "unat (toUint32 sd) < 2 ^ LENGTH(32)" by (rule unsigned_less)
  then show ?thesis by (simp add: mulberry32_def)
qed

lemma u32_unit_interval:
  fixes w :: u32
  shows "0 \<le> real (unat w) / 4294967296 \<and> real (unat w) / 4294967296 < 1"
proof -
  have "unat w < 2 ^ LENGTH(32)" by (rule unsigned_less)
  then have "unat w < 4294967296" by simp
  then have "real (unat w) < real 4294967296" by (simp only: of_nat_less_iff)
  then have "real (unat w) < 4294967296" by simp
  moreover have "0 \<le> real (unat w)" by (rule of_nat_0_le_iff)
  ultimately show ?thesis by (simp only: divide_less_eq_1_pos) auto
qed

lemma draw_range: "0 \<le> draw sd k \<and> draw sd k < 1"
  unfolding draw_def fst_rng_call by (rule u32_unit_interval)

lemma draw_refines:
  assumes "k < 4917756"
  shows "draw sd k = gen32_draw sd k"
proof -
  have "(k + 1) * 0x6D2B79F5 \<le> 4917756 * (0x6D2B79F5 :: nat)"
    using assms by (intro mult_le_mono1) simp
  then have b: "mulberry32 sd + (k + 1) * 0x6D2B79F5 < 2 ^ 53"
    using mulberry32_less [of sd] by simp
  then have b': "mulberry32 sd + k * 0x6D2B79F5 < 2 ^ 53" by simp
  have s: "rng_state sd k = mulberry32 sd + k * 0x6D2B79F5"
    using b' by (rule rng_state_exact)
  have r: "roundDouble (rng_state sd k + 0x6D2B79F5) = rng_state sd k + 0x6D2B79F5"
    using b by (intro roundDouble_exact) (simp add: s)
  have w: "(of_nat (rng_state sd k + 0x6D2B79F5) :: u32)
      = ((\<lambda>s. snd (gen32_next s)) ^^ k) (toUint32 sd) + 0x6D2B79F5"
    unfolding gen32_state s by (simp add: mulberry32_def)
  show ?thesis
    unfolding draw_def gen32_draw_def fst_rng_call fst_gen32_next r w ..
qed

lemma draw_cong32: "toUint32 sd = toUint32 sd' \<Longrightarrow> draw sd k = draw sd' k"
  by (simp add: draw_def rng_state_def mulberry32_def)

lemma draw_1337: "draw 1337 0 = 792042790 / 4294967296"
  unfolding draw_def fst_rng_call
  by (simp add: rng_state_def mulberry32_def toUint32_def mix32_def Let_def
      roundDouble_def bitlen.simps)

lemma bitlen_54: "2 ^ 53 \<le> v \<Longrightarrow> v < 2 ^ 54 \<Longrightarrow> bitlen v = 54"
  using bitlen_gt [of 53 v] bitlen_le [of v 54] by simp

lemma rng_state_1337_a: "rng_state 1337 4917758 = 9007197429408591"
  using rng_state_exact [of 1337 4917758] by (simp add: mulberry32_def toUint32_def)

lemma rng_state_1337_b: "rng_state 1337 4917759 = 9007199260974404"
proof -
  have "rng_state 1337 (Suc 4917758) = roundDouble (rng_state 1337 4917758 + 0x6D2B79F5)"
    by (rule rng_state_Suc)
  moreover have "bitlen 9007199260974404 = 54" by (rule bitlen_54) simp_all
  ultimately show ?thesis
    by (simp add: rng_state_1337_a roundDouble_def Let_def)
qed

lemma roundDouble_1337: "roundDouble 9007201092540217 = 9007201092540216"
proof -
  have "bitlen 9007201092540217 = 54" by (rule bitlen_54) simp_all
  then show ?thesis by (simp add: roundDouble_def Let_def)
qed

text \<open>
  Claim C2, as stated. The generator advances a 32-bit state by the additive constant on
  each call: then call number 4917760 from the seed 1337 would return the value of the
  32-bit generator. It does not: the counter of the closure is not wrapped, has passed
  \<open>2^53\<close> by then, and the sum \<open>9007201092540217\<close> is rounded to \<open>9007201092540216\<close>.
\<close>

theorem mulberry32_not_32bit_counterexample:
  "draw 1337 4917759 \<noteq> gen32_draw 1337 4917759"
proof -
  have a: "draw 1337 4917759 = 1148761939 / 4294967296"
    unfolding draw_def fst_rng_call rng_state_1337_b
    by (simp add: roundDouble_1337 mix32_def Let_def)
  have b: "gen32_draw 1337 4917759 = 1407222052 / 4294967296"
    unfolding gen32_draw_def fst_gen32_next gen32_state
    by (simp add: toUint32_def mix32_def Let_def)
  show ?thesis unfolding a b by simp
qed

text \<open>
  Claim C2, amended. Every value returned by the generator lies in \<open>[0, 1)\<close>; during the
  first 4917756 calls (the counter is below \<open>2^53\<close>) the value of each call is the
  value of the 32-bit generator: the 32-bit state advanced by \<open>0x6D2B79F5\<close>, mixed
  through the two rounds and divided by \<open>2^32\<close>; and two generators whose seeds agree as
  32-bit values return the same value at each call.
\<close>

theorem mulberry32_draws:
  "(0 \<le> draw sd k \<and> draw sd k < 1)
   \<and> (k < 4917756 \<longrightarrow> draw sd k = gen32_draw sd k)
   \<and> (toUint32 sd = toUint32 sd' \<longrightarrow> draw sd k = draw sd' k)"
  using draw_range [of sd k] draw_refines [of k sd] draw_cong32 [of sd sd' k] by blast

theorem mulberry32_draws_witness:
  "(0 \<le> draw 1337 0 \<and> draw 1337 0 < 1)
   \<and> ((0::nat) < 4917756 \<and> draw 1337 0 = gen32_draw 1337 0)
   \<and> (toUint32 1337 = toUint32 4294968633 \<and> draw 1337 0 = draw 4294968633 0)"
  using mulberry32_draws [of 1337 0 4294968633] by (simp add: toUint32_def)

section \<open>Initialisation\<close>

lemma start_short: "length movies < 2 \<Longrightarrow> start movies s rf = rf"
  by (simp add: start_def)

lemma spawnTops_eq:
  "spawnTops movies s rf =
     \<lparr>simRef = \<lparr>running = running (simRef rf),
                 tops = fst (spawnMap (arenaR s - topR s - 6) ((2 * pi) / real (max 1 (length movies)))
                              (topR s) 0 (mulberry32 (seed s)) movies),
                 winner = None\<rparr>,
      rngRef = Mulberry32 (snd (spawnMap (arenaR s - topR s - 6)
                   ((2 * pi) / real (max 1 (length movies))) (topR s) 0 (mulberry32 (seed s)) movies))\<rparr>"
  by (cases rf, cases "simRef rf") (simp add: spawnTops_def Let_def split: prod.split)

lemma start_eq:
  "2 \<le> length movies \<Longrightarrow>
   start movies s rf =
     \<lparr>simRef = \<lparr>running = True,
                 tops = fst (spawnMap (arenaR s - topR s - 6) ((2 * pi) / real (max 1 (length movies)))
                              (topR s) 0 (mulberry32 (seed s)) movies),
                 winner = None\<rparr>,
      rngRef = Mulberry32 (snd (spawnMap (arenaR s - topR s - 6)
                   ((2 * pi) / real (max 1 (length movies))) (topR s) 0 (mulberry32 (seed s)) movies))\<rparr>"
  by (simp add: start_def Let_def spawnTops_eq del: max.absorb1 max.absorb2 max.absorb3 max.absorb4)

lemma start_indep:
  assumes "2 \<le> length movies"
  shows "start movies s rf1 = start movies s rf2"
  by (simp only: start_eq [OF assms])

lemma hypot_0_right: "hypot a 0 = \<bar>a\<bar>"
  by (simp add: hypot_def)

section \<open>The passes of a physics step\<close>

lemma fold_invariant:
  assumes "\<And>k zs. k \<in> set ks \<Longrightarrow> P zs \<Longrightarrow> P (f k zs)" and "P zs"
  shows "P (fold f ks zs)"
  using assms by (induction ks arbitrary: zs) simp_all

lemma map_update_self: "(map f zs)[i := f (zs ! i)] = map f zs"
  by (cases "i < length zs") (simp_all add: list_update_same_conv list_update_beyond)

lemma integrateTop_keeps:
  "alive (integrateTop dt s t) = alive t"
  "hp (integrateTop dt s t) = hp t"
  "r (integrateTop dt s t) = r t"
  "id_str (integrateTop dt s t) = id_str t"
  "label (integrateTop dt s t) = label t"
  by (simp_all add: integrateTop_def)

lemma wallBounce_keeps:
  "alive (wallBounce s d lm t) = alive t"
  "r (wallBounce s d lm t) = r t"
  "id_str (wallBounce s d lm t) = id_str t"
  "label (wallBounce s d lm t) = label t"
  "vang (wallBounce s d lm t) = vang t"
  "ang (wallBounce s d lm t) = ang t"
  by (simp_all add: wallBounce_def Let_def)

lemma wallBounce_hp: "0 \<le> damage s \<Longrightarrow> hp (wallBounce s d lm t) \<le> hp t"
  by (simp add: wallBounce_def Let_def)

lemma wallTop_keeps:
  assumes "wallTop s t = Some t'"
  shows "r t' = r t" "id_str t' = id_str t" "label t' = label t"
  using assms by (auto simp: wallTop_def Let_def wallBounce_keeps split: if_splits)

lemma wallTop_hp:
  assumes "wallTop s t = Some t'" "0 \<le> damage s"
  shows "hp t' \<le> hp t"
  using assms wallBounce_hp [of s]
  by (auto simp: wallTop_def Let_def split: if_splits)

lemma wallTop_alive:
  assumes "wallTop s t = Some t'"
  shows "alive t' =
    (alive t \<and> \<not> ringOut s (hypot (x t) (y t))
       (if arenaR s - r t - 4 < hypot (x t) (y t)
        then wallBounce s (hypot (x t) (y t)) (arenaR s - r t - 4) t else t))"
  using assms by (auto simp: wallTop_def Let_def wallBounce_keeps split: if_splits)

lemma wallPass_nth:
  "wallPass s ts = Some ts' \<Longrightarrow>
   length ts' = length ts \<and> (\<forall>i<length ts. wallTop s (ts ! i) = Some (ts' ! i))"
proof (induction ts arbitrary: ts')
  case Nil
  then show ?case by simp
next
  case (Cons t ts)
  from Cons.prems obtain t1 ts1 where
    h: "wallTop s t = Some t1" "wallPass s ts = Some ts1" "ts' = t1 # ts1"
    by (auto split: option.splits)
  from Cons.IH [OF h(2)] have
    ih: "length ts1 = length ts" "\<forall>i<length ts. wallTop s (ts ! i) = Some (ts1 ! i)"
    by simp_all
  show ?case
  proof (intro conjI allI impI)
    show "length ts' = length (t # ts)" using h ih by simp
  next
    fix i assume "i < length (t # ts)"
    then show "wallTop s ((t # ts) ! i) = Some (ts' ! i)"
      using h ih by (cases i) simp_all
  qed
qed


lemma pairCollide_keeps:
  "alive (fst (pairCollide s a b)) = alive a" "alive (snd (pairCollide s a b)) = alive b"
  "r (fst (pairCollide s a b)) = r a" "r (snd (pairCollide s a b)) = r b"
  "id_str (fst (pairCollide s a b)) = id_str a" "id_str (snd (pairCollide s a b)) = id_str b"
  "label (fst (pairCollide s a b)) = label a" "label (snd (pairCollide s a b)) = label b"
  by (simp_all add: pairCollide_def Let_def split_beta)

lemma pairCollide_hp:
  assumes "0 \<le> damage s"
  shows "hp (fst (pairCollide s a b)) \<le> hp a" "hp (snd (pairCollide s a b)) \<le> hp b"
  using assms by (simp_all add: pairCollide_def Let_def split_beta)

lemma pairAt_length: "length (pairAt s i j ts) = length ts"
  by (simp add: pairAt_def split_beta)

lemma pairAt_map:
  assumes "\<And>a b. f (fst (pairCollide s a b)) = f a" "\<And>a b. f (snd (pairCollide s a b)) = f b"
  shows "map f (pairAt s i j ts) = map f ts"
proof (cases "alive (ts ! j)")
  case True
  have "map f (pairAt s i j ts) = ((map f ts)[i := f (ts ! i)])[j := f (ts ! j)]"
    using True by (simp add: pairAt_def split_beta map_update assms)
  also have "\<dots> = (map f ts)[j := f (ts ! j)]" by (simp only: map_update_self)
  also have "\<dots> = map f ts" by (rule map_update_self)
  finally show ?thesis .
next
  case False
  then show ?thesis by (simp add: pairAt_def)
qed

lemma pairAt_hp:
  assumes "0 \<le> damage s" "k < length ts"
  shows "hp (pairAt s i j ts ! k) \<le> hp (ts ! k)"
proof (cases "alive (ts ! j)")
  case True
  let ?a = "fst (pairCollide s (ts ! i) (ts ! j))"
  let ?b = "snd (pairCollide s (ts ! i) (ts ! j))"
  have e: "pairAt s i j ts = ts[i := ?a, j := ?b]"
    using True by (simp add: pairAt_def split_beta)
  have a: "hp ?a \<le> hp (ts ! i)" and b: "hp ?b \<le> hp (ts ! j)"
    using assms(1) by (rule pairCollide_hp)+
  show ?thesis
  proof (cases "k = j")
    case True
    then show ?thesis unfolding e using b assms(2) by simp
  next
    case False
    then show ?thesis unfolding e using a assms(2) by (cases "k = i") simp_all
  qed
next
  case False
  then show ?thesis by (simp add: pairAt_def)
qed

lemma pairInner_length: "length (pairInner s i ts) = length ts"
  unfolding pairInner_def
  by (rule fold_invariant [where P = "\<lambda>zs. length zs = length ts"]) (simp_all add: pairAt_length)

lemma pairInner_map:
  assumes "\<And>a b. f (fst (pairCollide s a b)) = f a" "\<And>a b. f (snd (pairCollide s a b)) = f b"
  shows "map f (pairInner s i ts) = map f ts"
  unfolding pairInner_def
  by (rule fold_invariant [where P = "\<lambda>zs. map f zs = map f ts"])
     (simp_all add: pairAt_map [of f, OF assms])

lemma pairInner_hp:
  assumes "0 \<le> damage s"
  shows "\<forall>k<length ts. hp (pairInner s i ts ! k) \<le> hp (ts ! k)"
  unfolding pairInner_def
proof (rule fold_invariant
    [where P = "\<lambda>zs::top list. length zs = length ts \<and> (\<forall>k<length ts. hp (zs ! k) \<le> hp (ts ! k))", THEN conjunct2])
  fix j and zs :: "top list"
  assume p: "length zs = length ts \<and> (\<forall>k<length ts. hp (zs ! k) \<le> hp (ts ! k))"
  show "length (pairAt s i j zs) = length ts \<and> (\<forall>k<length ts. hp (pairAt s i j zs ! k) \<le> hp (ts ! k))"
  proof (intro conjI allI impI)
    show "length (pairAt s i j zs) = length ts" using p by (simp add: pairAt_length)
  next
    fix k assume k: "k < length ts"
    then have "hp (pairAt s i j zs ! k) \<le> hp (zs ! k)"
      using pairAt_hp [OF assms, of k zs i j] p by simp
    also have "\<dots> \<le> hp (ts ! k)" using p k by simp
    finally show "hp (pairAt s i j zs ! k) \<le> hp (ts ! k)" .
  qed
qed simp

lemma pairOuter_length: "length (pairOuter s i ts) = length ts"
  by (simp add: pairOuter_def pairInner_length)

lemma pairOuter_map:
  assumes "\<And>a b. f (fst (pairCollide s a b)) = f a" "\<And>a b. f (snd (pairCollide s a b)) = f b"
  shows "map f (pairOuter s i ts) = map f ts"
  by (simp add: pairOuter_def pairInner_map [of f, OF assms])

lemma pairOuter_hp:
  assumes "0 \<le> damage s" "k < length ts"
  shows "hp (pairOuter s i ts ! k) \<le> hp (ts ! k)"
  using pairInner_hp [OF assms(1), of ts i] assms(2) by (simp add: pairOuter_def)

lemma pairPass_length: "length (pairPass s ts) = length ts"
  unfolding pairPass_def
  by (rule fold_invariant [where P = "\<lambda>zs. length zs = length ts"]) (simp_all add: pairOuter_length)

lemma pairPass_map:
  assumes "\<And>a b. f (fst (pairCollide s a b)) = f a" "\<And>a b. f (snd (pairCollide s a b)) = f b"
  shows "map f (pairPass s ts) = map f ts"
  unfolding pairPass_def
  by (rule fold_invariant [where P = "\<lambda>zs. map f zs = map f ts"])
     (simp_all add: pairOuter_map [of f, OF assms])

lemma pairPass_hp:
  assumes "0 \<le> damage s"
  shows "\<forall>k<length ts. hp (pairPass s ts ! k) \<le> hp (ts ! k)"
  unfolding pairPass_def
proof (rule fold_invariant
    [where P = "\<lambda>zs::top list. length zs = length ts \<and> (\<forall>k<length ts. hp (zs ! k) \<le> hp (ts ! k))", THEN conjunct2])
  fix i and zs :: "top list"
  assume p: "length zs = length ts \<and> (\<forall>k<length ts. hp (zs ! k) \<le> hp (ts ! k))"
  show "length (pairOuter s i zs) = length ts \<and> (\<forall>k<length ts. hp (pairOuter s i zs ! k) \<le> hp (ts ! k))"
  proof (intro conjI allI impI)
    show "length (pairOuter s i zs) = length ts" using p by (simp add: pairOuter_length)
  next
    fix k assume k: "k < length ts"
    then have "hp (pairOuter s i zs ! k) \<le> hp (zs ! k)"
      using pairOuter_hp [OF assms, of k zs i] p by simp
    also have "\<dots> \<le> hp (ts ! k)" using p k by simp
    finally show "hp (pairOuter s i zs ! k) \<le> hp (ts ! k)" .
  qed
qed simp

lemma pairPass_alive_nth: "k < length ts \<Longrightarrow> alive (pairPass s ts ! k) = alive (ts ! k)"
  using pairPass_map [of alive s ts] pairPass_length [of s ts]
  by (metis pairCollide_keeps(1,2) nth_map)

lemma tops_checkWinner: "tops (checkWinner sm) = tops sm"
  by (simp add: checkWinner_def Let_def)

lemma physicsStep_Some:
  assumes "physicsStep dt s sm = Some sm'"
  obtains ts where "wallPass s (map (integrateTop dt s) (tops sm)) = Some ts"
    and "sm' = checkWinner (sm\<lparr>tops := pairPass s ts\<rparr>)"
    and "tops sm' = pairPass s ts"
  using assms by (auto simp: physicsStep_def tops_checkWinner split: option.splits)

section \<open>Evaluation of the concrete states\<close>

lemma sqrt_millionth: "sqrt (1 / 1000000) = 1 / 1000"
  by (rule real_sqrt_unique) (simp_all add: power2_eq_square)

lemmas concrete_defs = topOnAxis_def movieA_def movieB_def defaultSettings_def FIXED_DT_def

lemma integrate_duel0:
  "map (integrateTop FIXED_DT defaultSettings) (tops duel0) =
     [topOnAxis movieA 1 (2397 / 20) (1 / 20) (599 / 100) 1 True,
      topOnAxis movieB 3 0 (1 / 20) (599 / 100) 100 True]"
  by (simp add: duel0_def integrateTop_def concrete_defs)

lemma wallPass_duel0:
  "wallPass defaultSettings
     [topOnAxis movieA 1 (2397 / 20) (1 / 20) (599 / 100) 1 True,
      topOnAxis movieB 3 0 (1 / 20) (599 / 100) 100 True] =
   Some [topOnAxis movieA 1 (2397 / 20) (1 / 20) (599 / 100) 1 True,
      topOnAxis movieB 3 0 (1 / 20) (599 / 100) 100 True]"
  by (simp add: wallTop_def Let_def ringOut_def hypot_0_right concrete_defs)

lemma pairCollide_duel0:
  "pairCollide defaultSettings
     (topOnAxis movieA 1 (2397 / 20) (1 / 20) (599 / 100) 1 True)
     (topOnAxis movieB 3 0 (1 / 20) (599 / 100) 100 True) =
   (topOnAxis movieA (- 24) (2397 / 200) (1 / 20) (599 / 100) (- 1897 / 500) True,
    topOnAxis movieB 28 (21573 / 200) (1 / 20) (599 / 100) (47603 / 500) True)"
  by (simp add: pairCollide_def pairNormal_def pairDist_def Let_def COLL_RESTITUTION_def concrete_defs)

lemma pairPass_duel0:
  "pairPass defaultSettings
     [topOnAxis movieA 1 (2397 / 20) (1 / 20) (599 / 100) 1 True,
      topOnAxis movieB 3 0 (1 / 20) (599 / 100) 100 True] =
   [topOnAxis movieA (- 24) (2397 / 200) (1 / 20) (599 / 100) (- 1897 / 500) True,
    topOnAxis movieB 28 (21573 / 200) (1 / 20) (599 / 100) (47603 / 500) True]"
proof -
  have al: "alive (topOnAxis m a b c d e True)" for m a b c d e
    by (simp add: topOnAxis_def)
  show ?thesis
    by (simp add: pairPass_def pairOuter_def pairInner_def pairAt_def pairCollide_duel0 al)
qed

lemma physicsStep_duel0: "physicsStep FIXED_DT defaultSettings duel0 = Some duel1"
proof -
  have al: "alive (topOnAxis m a b c d e True)" for m a b c d e
    by (simp add: topOnAxis_def)
  have "checkWinner (duel0\<lparr>tops := tops duel1\<rparr>) = duel1"
    by (simp add: checkWinner_def duel0_def duel1_def al)
  moreover have "tops duel1 =
     [topOnAxis movieA (- 24) (2397 / 200) (1 / 20) (599 / 100) (- 1897 / 500) True,
      topOnAxis movieB 28 (21573 / 200) (1 / 20) (599 / 100) (47603 / 500) True]"
    by (simp add: duel1_def)
  ultimately show ?thesis
    by (simp only: physicsStep_def integrate_duel0 wallPass_duel0 pairPass_duel0 option.case)
qed

lemma physicsStep_stalled0: "physicsStep FIXED_DT defaultSettings stalled0 = Some stalled1"
proof -
  have i: "map (integrateTop FIXED_DT defaultSettings) (tops stalled0) =
     [topOnAxis movieA 1 (2397 / 20) (1 / 20) (599 / 100) 100 True,
      topOnAxis movieB 3 0 0 0 100 True]"
    by (simp add: stalled0_def integrateTop_def concrete_defs)
  have w: "wallPass defaultSettings
     [topOnAxis movieA 1 (2397 / 20) (1 / 20) (599 / 100) 100 True,
      topOnAxis movieB 3 0 0 0 100 True] = Some (tops stalled1)"
    by (simp add: wallTop_def Let_def ringOut_def hypot_0_right concrete_defs stalled1_def)
  have p: "pairPass defaultSettings (tops stalled1) = tops stalled1"
    by (simp add: pairPass_def pairOuter_def pairInner_def pairAt_def stalled1_def topOnAxis_def)
  have c: "checkWinner (stalled0\<lparr>tops := tops stalled1\<rparr>) = stalled1"
    by (simp add: checkWinner_def stalled0_def stalled1_def topOnAxis_def movieA_def)
  show ?thesis
    by (simp only: physicsStep_def i w p c option.case)
qed


lemma pairNormal_close: "pairNormal closeA closeB = (1 / 2, 0)"
  by (simp add: pairNormal_def pairDist_def Let_def closeA_def closeB_def topOnAxis_def
      sqrt_millionth)

lemma pairCollide_close_vx:
  "vx (fst (pairCollide defaultSettings closeA closeB)) = 31 / 4"
  "vx (snd (pairCollide defaultSettings closeA closeB)) = 9 / 4"
  "vy (fst (pairCollide defaultSettings closeA closeB)) = 0"
  "vy (snd (pairCollide defaultSettings closeA closeB)) = 0"
  by (simp_all add: pairCollide_def pairNormal_close Let_def COLL_RESTITUTION_def)
     (simp_all add: closeA_def closeB_def topOnAxis_def)

lemma physicsStep_bothStalled0:
  "physicsStep FIXED_DT defaultSettings bothStalled0 = Some bothStalled1"
proof -
  have i: "map (integrateTop FIXED_DT defaultSettings) (tops bothStalled0) = tops bothStalled0"
    by (simp add: bothStalled0_def integrateTop_def concrete_defs)
  have w: "wallPass defaultSettings (tops bothStalled0) = Some (tops bothStalled1)"
    by (simp add: wallTop_def Let_def ringOut_def hypot_0_right concrete_defs
        bothStalled0_def bothStalled1_def)
  have p: "pairPass defaultSettings (tops bothStalled1) = tops bothStalled1"
    by (simp add: pairPass_def pairOuter_def pairInner_def pairAt_def bothStalled1_def topOnAxis_def)
  have c: "checkWinner (bothStalled0\<lparr>tops := tops bothStalled1\<rparr>) = bothStalled1"
    by (simp add: checkWinner_def bothStalled0_def bothStalled1_def topOnAxis_def)
  show ?thesis
    by (simp only: physicsStep_def i w p c option.case)
qed

section \<open>The claims about a match\<close>

lemma checkWinner_cong:
  assumes "tops sm1 = tops sm2" and "winner sm1 = winner sm2"
  shows "tops (checkWinner sm1) = tops (checkWinner sm2)
    \<and> winner (checkWinner sm1) = winner (checkWinner sm2)"
  using assms by (simp add: checkWinner_def Let_def)

lemma physicsStep_cong:
  assumes "tops sm1 = tops sm2" and "winner sm1 = winner sm2"
  shows "rel_option (\<lambda>p q. tops p = tops q \<and> winner p = winner q)
           (physicsStep dt s sm1) (physicsStep dt s sm2)"
proof (cases "wallPass s (map (integrateTop dt s) (tops sm2))")
  case None
  then show ?thesis by (simp add: physicsStep_def assms(1))
next
  case (Some ts)
  have "tops (checkWinner (sm1\<lparr>tops := pairPass s ts\<rparr>)) = tops (checkWinner (sm2\<lparr>tops := pairPass s ts\<rparr>))
    \<and> winner (checkWinner (sm1\<lparr>tops := pairPass s ts\<rparr>)) = winner (checkWinner (sm2\<lparr>tops := pairPass s ts\<rparr>))"
    by (rule checkWinner_cong) (simp_all add: assms(2))
  then show ?thesis by (simp add: physicsStep_def assms(1) Some)
qed

lemma steps_cong:
  assumes "tops sm1 = tops sm2" and "winner sm1 = winner sm2"
  shows "rel_option (\<lambda>p q. tops p = tops q \<and> winner p = winner q)
           (steps k dt s sm1) (steps k dt s sm2)"
  using assms
proof (induction k arbitrary: sm1 sm2)
  case 0
  then show ?case by simp
next
  case (Suc k)
  from physicsStep_cong [OF Suc.prems, of dt s] show ?case
  proof (cases rule: option.rel_cases)
    case None
    then show ?thesis by simp
  next
    case (Some p q)
    then show ?thesis using Suc.IH [of p q] by simp
  qed
qed

lemma rel_option_fields:
  assumes "rel_option (\<lambda>p q. f p = f q \<and> g p = g q) a b"
  shows "map_option f a = map_option f b \<and> map_option g a = map_option g b"
  using assms by (cases rule: option.rel_cases) simp_all

lemma spawnTops_indep:
  "tops (simRef (spawnTops movies s rf1)) = tops (simRef (spawnTops movies s rf2))"
  "winner (simRef (spawnTops movies s rf1)) = winner (simRef (spawnTops movies s rf2))"
  "rngRef (spawnTops movies s rf1) = rngRef (spawnTops movies s rf2)"
  by (simp_all only: spawnTops_eq refs.simps sim.simps)

text \<open>
  Claim C1. For every roster with at least two participants and every settings record
  (the seed included), a match is constructed the same way whatever it is constructed
  over: \<open>start\<close> overwrites both references completely (the tops, the winner, the running
  flag and the generator), and so the states reached by any number \<open>k\<close> of physics steps
  with the same \<open>dt\<close> are identical. \<open>spawnTops\<close> alone leaves the running flag as it was;
  the tops (position, velocity, orientation, angular velocity, health and alive flag)
  and the winner after \<open>k\<close> steps are identical as well.
\<close>

theorem start_steps_deterministic:
  assumes "2 \<le> length movies"
  shows "start movies s rf1 = start movies s rf2
    \<and> steps k dt s (simRef (start movies s rf1)) = steps k dt s (simRef (start movies s rf2))
    \<and> map_option tops (steps k dt s (simRef (spawnTops movies s rf1)))
        = map_option tops (steps k dt s (simRef (spawnTops movies s rf2)))
    \<and> map_option winner (steps k dt s (simRef (spawnTops movies s rf1)))
        = map_option winner (steps k dt s (simRef (spawnTops movies s rf2)))"
proof -
  have a: "start movies s rf1 = start movies s rf2" using assms by (rule start_indep)
  have "rel_option (\<lambda>p q. tops p = tops q \<and> winner p = winner q)
          (steps k dt s (simRef (spawnTops movies s rf1)))
          (steps k dt s (simRef (spawnTops movies s rf2)))"
    by (rule steps_cong) (rule spawnTops_indep)+
  from rel_option_fields [OF this] show ?thesis by (simp only: a)
qed

theorem start_steps_deterministic_witness:
  "2 \<le> length [movieA, movieB]
   \<and> start [movieA, movieB] defaultSettings refs0
       = start [movieA, movieB] defaultSettings \<lparr>simRef = duel1, rngRef = Mulberry32 7\<rparr>
   \<and> steps 3 FIXED_DT defaultSettings (simRef (start [movieA, movieB] defaultSettings refs0))
       = steps 3 FIXED_DT defaultSettings
           (simRef (start [movieA, movieB] defaultSettings \<lparr>simRef = duel1, rngRef = Mulberry32 7\<rparr>))
   \<and> map_option tops (steps 3 FIXED_DT defaultSettings
         (simRef (spawnTops [movieA, movieB] defaultSettings refs0)))
       = map_option tops (steps 3 FIXED_DT defaultSettings
           (simRef (spawnTops [movieA, movieB] defaultSettings \<lparr>simRef = duel1, rngRef = Mulberry32 7\<rparr>)))
   \<and> map_option winner (steps 3 FIXED_DT defaultSettings
         (simRef (spawnTops [movieA, movieB] defaultSettings refs0)))
       = map_option winner (steps 3 FIXED_DT defaultSettings
           (simRef (spawnTops [movieA, movieB] defaultSettings \<lparr>simRef = duel1, rngRef = Mulberry32 7\<rparr>)))"
proof -
  have h: "2 \<le> length [movieA, movieB]" by simp
  show ?thesis
    using h start_steps_deterministic [OF h, of defaultSettings refs0
        "\<lparr>simRef = duel1, rngRef = Mulberry32 7\<rparr>" 3 FIXED_DT]
    by blast
qed

text \<open>
  Claim C5, as stated. Starting a match with fewer than two participants signals a
  distinct condition rather than silently doing nothing. \<open>start\<close> returns no value, and
  with the one-entry roster it leaves both references as they were: nothing is signalled.
\<close>

theorem start_short_roster_counterexample:
  "length [movieA] < 2 \<and> start [movieA] defaultSettings refs0 = refs0
   \<and> running (simRef (start [movieA] defaultSettings refs0)) = False"
  by (simp add: start_def refs0_def)

text \<open>
  Claim C5, amended. For every roster with fewer than two participants \<open>start\<close> is a
  silent no-op: both references keep their values (no tops are spawned, the running flag
  is not set, nothing is signalled).
\<close>

theorem start_short_roster_noop:
  "length movies < 2 \<Longrightarrow> start movies s rf = rf"
  by (rule start_short)

theorem start_short_roster_noop_witness:
  "length ([] :: movie list) < 2
   \<and> start [] defaultSettings \<lparr>simRef = duel1, rngRef = Mulberry32 7\<rparr>
       = \<lparr>simRef = duel1, rngRef = Mulberry32 7\<rparr>"
proof -
  have h: "length ([] :: movie list) < 2" by simp
  show ?thesis using h start_short_roster_noop [OF h] by blast
qed

text \<open>
  Claim C3, as stated. The winner is the id of the sole remaining top. After one step
  from \<open>stalled0\<close> the only alive top has the id \<open>a1\<close>, and the winner is its label.
\<close>

theorem winner_is_not_id_counterexample:
  "physicsStep FIXED_DT defaultSettings stalled0 = Some stalled1
   \<and> length (filter alive (tops stalled1)) \<le> 1
   \<and> map id_str (filter alive (tops stalled1)) = [''a1'']
   \<and> winner stalled1 = Some ''Inception''
   \<and> winner stalled1 \<noteq> Some ''a1''"
  by (simp add: physicsStep_stalled0) (simp add: stalled1_def topOnAxis_def movieA_def)

lemma checkWinner_le1:
  assumes "length (filter alive (tops sm)) \<le> 1"
  shows "running (checkWinner sm) = False"
    and "filter alive (tops sm) = [] \<Longrightarrow> winner (checkWinner sm) = None"
    and "filter alive (tops sm) = [t] \<Longrightarrow> label t \<noteq> [] \<Longrightarrow> winner (checkWinner sm) = Some (label t)"
  using assms by (simp_all add: checkWinner_def Let_def)

text \<open>
  Claim C3, amended. When at most one top is alive after a physics step, the step has set
  \<open>running\<close> to false, and the winner to \<open>None\<close> when no top is alive, and to the label
  (not the id) of the sole alive top when that label is not empty.
\<close>

theorem physicsStep_winner:
  assumes "physicsStep dt s sm = Some sm'" and "length (filter alive (tops sm')) \<le> 1"
  shows "running sm' = False
    \<and> (filter alive (tops sm') = [] \<longrightarrow> winner sm' = None)
    \<and> (\<forall>t. filter alive (tops sm') = [t] \<and> label t \<noteq> [] \<longrightarrow> winner sm' = Some (label t))"
proof -
  from assms(1) obtain ts where
    e: "sm' = checkWinner (sm\<lparr>tops := pairPass s ts\<rparr>)" and t: "tops sm' = pairPass s ts"
    by (rule physicsStep_Some)
  have l: "length (filter alive (tops (sm\<lparr>tops := pairPass s ts\<rparr>))) \<le> 1"
    using assms(2) t by simp
  show ?thesis
    unfolding e using checkWinner_le1 [OF l] by (simp add: tops_checkWinner)
qed

theorem physicsStep_winner_witness:
  "physicsStep FIXED_DT defaultSettings stalled0 = Some stalled1
   \<and> length (filter alive (tops stalled1)) \<le> 1
   \<and> running stalled1 = False
   \<and> filter alive (tops stalled1) = [topOnAxis movieA 1 (2397 / 20) (1 / 20) (599 / 100) 100 True]
   \<and> label (topOnAxis movieA 1 (2397 / 20) (1 / 20) (599 / 100) 100 True) \<noteq> []
   \<and> winner stalled1 = Some (label (topOnAxis movieA 1 (2397 / 20) (1 / 20) (599 / 100) 100 True))
   \<and> physicsStep FIXED_DT defaultSettings bothStalled0 = Some bothStalled1
   \<and> length (filter alive (tops bothStalled1)) \<le> 1
   \<and> running bothStalled1 = False
   \<and> filter alive (tops bothStalled1) = []
   \<and> winner bothStalled1 = None"
proof -
  have a: "length (filter alive (tops stalled1)) \<le> 1"
    and b: "filter alive (tops stalled1) = [topOnAxis movieA 1 (2397 / 20) (1 / 20) (599 / 100) 100 True]"
    and c: "label (topOnAxis movieA 1 (2397 / 20) (1 / 20) (599 / 100) 100 True) \<noteq> []"
    by (simp_all add: stalled1_def topOnAxis_def movieA_def)
  have d: "length (filter alive (tops bothStalled1)) \<le> 1"
    and e: "filter alive (tops bothStalled1) = []"
    by (simp_all add: bothStalled1_def topOnAxis_def)
  show ?thesis
    using physicsStep_winner [OF physicsStep_stalled0 a]
      physicsStep_winner [OF physicsStep_bothStalled0 d]
      physicsStep_stalled0 physicsStep_bothStalled0 a b c d e
    by blast
qed

lemma nth_via_map: "map f zs = map f ws \<Longrightarrow> k < length ws \<Longrightarrow> f (zs ! k) = f (ws ! k)"
  by (metis length_map nth_map)

text \<open>
  Claim C9. For a positive damage multiplier, every physics step that yields a state
  keeps the list of tops in place (same length, same id at every index) and leaves the
  health of every top less than or equal to its health before the step.
\<close>

theorem health_never_increases:
  assumes "physicsStep dt s sm = Some sm'" and "0 < damage s" and "i < length (tops sm)"
  shows "length (tops sm') = length (tops sm)
    \<and> id_str (tops sm' ! i) = id_str (tops sm ! i)
    \<and> hp (tops sm' ! i) \<le> hp (tops sm ! i)"
proof -
  from assms(1) obtain ts where
    w: "wallPass s (map (integrateTop dt s) (tops sm)) = Some ts" and t: "tops sm' = pairPass s ts"
    by (rule physicsStep_Some)
  have d: "0 \<le> damage s" using assms(2) by simp
  from wallPass_nth [OF w] assms(3) have
    len: "length ts = length (tops sm)"
    and wt: "wallTop s (integrateTop dt s (tops sm ! i)) = Some (ts ! i)"
    by simp_all
  have i: "i < length ts" using len assms(3) by simp
  have "hp (pairPass s ts ! i) \<le> hp (ts ! i)" using pairPass_hp [OF d, of ts] i by simp
  also have "\<dots> \<le> hp (integrateTop dt s (tops sm ! i))" using wt d by (rule wallTop_hp)
  finally have h: "hp (tops sm' ! i) \<le> hp (tops sm ! i)"
    by (simp add: t integrateTop_keeps)
  have "id_str (pairPass s ts ! i) = id_str (ts ! i)"
    using pairPass_map [of id_str s ts] i by (intro nth_via_map) (simp_all add: pairCollide_keeps)
  also have "\<dots> = id_str (integrateTop dt s (tops sm ! i))" using wt by (rule wallTop_keeps)
  finally have n: "id_str (tops sm' ! i) = id_str (tops sm ! i)"
    by (simp add: t integrateTop_keeps)
  show ?thesis using h n len by (simp add: t pairPass_length)
qed

theorem health_never_increases_witness:
  "physicsStep FIXED_DT defaultSettings duel0 = Some duel1
   \<and> 0 < damage defaultSettings
   \<and> (1::nat) < length (tops duel0)
   \<and> length (tops duel1) = length (tops duel0)
   \<and> id_str (tops duel1 ! 1) = id_str (tops duel0 ! 1)
   \<and> hp (tops duel1 ! 1) \<le> hp (tops duel0 ! 1)"
proof -
  have a: "0 < damage defaultSettings" by (simp add: defaultSettings_def)
  have b: "(1::nat) < length (tops duel0)" by (simp add: duel0_def)
  show ?thesis
    using health_never_increases [OF physicsStep_duel0 a b] physicsStep_duel0 a b by blast
qed

text \<open>
  Claim C4, as stated. Elimination is evaluated after both collision passes, and marks a
  top dead exactly when, at that point, its health is \<open>\<le> 0\<close> (or it is out of bounds, or
  stalled). After one step from \<open>duel0\<close> the first top has lost its last health point in
  the pairwise pass, and is still alive at the end of the step.
\<close>

theorem elimination_after_pairs_counterexample:
  "physicsStep FIXED_DT defaultSettings duel0 = Some duel1
   \<and> hp (tops duel1 ! 0) \<le> 0
   \<and> alive (tops duel1 ! 0)"
  by (simp add: physicsStep_duel0) (simp add: duel1_def topOnAxis_def)

text \<open>
  Claim C4, amended. Within every physics step that yields a state, elimination is
  evaluated inside the wall pass, for each top right after its own wall collision and
  before the pairwise pass, which changes no alive flag. A top is alive after the step
  exactly when it was alive before and none of the following holds for the top \<open>t'\<close>
  as it leaves its wall collision: the distance \<open>d\<close> from the centre after integration
  (before the push back) exceeds \<open>arenaR + 40\<close>; its health is \<open>\<le> 0\<close>; its linear speed is
  below 5 and its angular speed is below 0.2 (both together).
\<close>

theorem elimination_in_wall_pass:
  assumes "physicsStep dt s sm = Some sm'" and "i < length (tops sm)"
  shows "let t = integrateTop dt s (tops sm ! i);
             d = hypot (x t) (y t);
             lm = arenaR s - r t - 4;
             t' = (if lm < d then wallBounce s d lm t else t)
         in alive (tops sm' ! i) =
              (alive (tops sm ! i)
               \<and> \<not> (d > arenaR s + 40 \<or> hp t' \<le> 0 \<or> (hypot (vx t') (vy t') < 5 \<and> \<bar>vang t'\<bar> < 0.2)))"
proof -
  from assms(1) obtain ts where
    w: "wallPass s (map (integrateTop dt s) (tops sm)) = Some ts" and t: "tops sm' = pairPass s ts"
    by (rule physicsStep_Some)
  from wallPass_nth [OF w] assms(2) have
    len: "length ts = length (tops sm)"
    and wt: "wallTop s (integrateTop dt s (tops sm ! i)) = Some (ts ! i)"
    by simp_all
  have "alive (tops sm' ! i) = alive (ts ! i)"
    using len assms(2) by (simp add: t pairPass_alive_nth)
  then show ?thesis
    using wallTop_alive [OF wt]
    by (simp add: Let_def ringOut_def integrateTop_keeps)
qed

theorem elimination_in_wall_pass_witness:
  "physicsStep FIXED_DT defaultSettings stalled0 = Some stalled1
   \<and> (1::nat) < length (tops stalled0)
   \<and> (let t = integrateTop FIXED_DT defaultSettings (tops stalled0 ! 1);
           d = hypot (x t) (y t);
           lm = arenaR defaultSettings - r t - 4;
           t' = (if lm < d then wallBounce defaultSettings d lm t else t)
       in alive (tops stalled1 ! 1) =
            (alive (tops stalled0 ! 1)
             \<and> \<not> (d > arenaR defaultSettings + 40 \<or> hp t' \<le> 0
                  \<or> (hypot (vx t') (vy t') < 5 \<and> \<bar>vang t'\<bar> < 0.2))))
   \<and> \<not> alive (tops stalled1 ! 1)"
proof -
  have b: "(1::nat) < length (tops stalled0)" by (simp add: stalled0_def)
  have c: "\<not> alive (tops stalled1 ! 1)" by (simp add: stalled1_def topOnAxis_def)
  show ?thesis
    using elimination_in_wall_pass [OF physicsStep_stalled0 b] physicsStep_stalled0 b c
    by blast
qed




lemma pairDist_far:
  assumes "1 / 1000000 \<le> (x b - x a) * (x b - x a) + (y b - y a) * (y b - y a)"
  shows "pairDist a b * pairDist a b = (x b - x a) * (x b - x a) + (y b - y a) * (y b - y a)"
    and "0 < pairDist a b"
proof -
  let ?d2 = "(x b - x a) * (x b - x a) + (y b - y a) * (y b - y a)"
  have e: "pairDist a b = sqrt ?d2"
    using assms by (simp add: pairDist_def Let_def max_def)
  have p: "0 < ?d2" using assms by linarith
  show "pairDist a b * pairDist a b = ?d2"
    unfolding e using p by simp
  show "0 < pairDist a b"
    unfolding e using p by simp
qed

lemma pairNormal_unit:
  assumes "1 / 1000000 \<le> (x b - x a) * (x b - x a) + (y b - y a) * (y b - y a)"
  shows "fst (pairNormal a b) * fst (pairNormal a b) + snd (pairNormal a b) * snd (pairNormal a b) = 1"
proof -
  let ?d = "pairDist a b"
  have dd: "?d * ?d = (x b - x a) * (x b - x a) + (y b - y a) * (y b - y a)"
    and dp: "0 < ?d"
    using assms by (rule pairDist_far)+
  have "(x b - x a) / ?d * ((x b - x a) / ?d) + (y b - y a) / ?d * ((y b - y a) / ?d)
      = ((x b - x a) * (x b - x a) + (y b - y a) * (y b - y a)) / (?d * ?d)"
    by (simp add: add_divide_distrib)
  also have "\<dots> = 1" using dp by (simp only: dd [symmetric]) simp
  finally show ?thesis by (simp add: pairNormal_def)
qed

lemma impulse_algebra:
  fixes nx ny e :: real
  assumes "nx * nx + ny * ny = 1"
  shows "((bx + j * nx) - (ax - j * nx)) * nx + ((by + j * ny) - (ay - j * ny)) * ny
      = ((bx - ax) * nx + (by - ay) * ny) + 2 * j"
proof -
  have "((bx + j * nx) - (ax - j * nx)) * nx + ((by + j * ny) - (ay - j * ny)) * ny
      = ((bx - ax) * nx + (by - ay) * ny) + 2 * j * (nx * nx + ny * ny)"
    by (simp add: algebra_simps)
  then show ?thesis by (simp only: assms)
qed

text \<open>
  Claim C6, amended. For every pair of tops that is resolved as colliding and whose squared
  centre distance is at least \<open>10^-6\<close> (so that the clamp does not act and the normal is a
  unit vector), the impulse \<open>jimp = -(1 + e) / 2\<close> times the relative normal velocity, with
  \<open>e = COLL_RESTITUTION\<close>, is applied equally and oppositely to both tops, and the
  relative normal velocity after the impulse is \<open>- e\<close> times the one before: the relative
  normal speed is multiplied by \<open>e\<close>.
\<close>

theorem pair_impulse_restitution:
  assumes "1 / 1000000 \<le> (x b - x a) * (x b - x a) + (y b - y a) * (y b - y a)"
    and "(x b - x a) * (x b - x a) + (y b - y a) * (y b - y a) < (r a + r b) * (r a + r b)"
  shows "let (nx, ny) = pairNormal a b;
             (a', b') = pairCollide s a b;
             relN = (vx b - vx a) * nx + (vy b - vy a) * ny;
             jimp = - (1 + COLL_RESTITUTION) * relN / 2
         in nx * nx + ny * ny = 1
            \<and> vx a' = vx a - jimp * nx \<and> vy a' = vy a - jimp * ny
            \<and> vx b' = vx b + jimp * nx \<and> vy b' = vy b + jimp * ny
            \<and> (vx b' - vx a') * nx + (vy b' - vy a') * ny = - COLL_RESTITUTION * relN
            \<and> \<bar>(vx b' - vx a') * nx + (vy b' - vy a') * ny\<bar> = COLL_RESTITUTION * \<bar>relN\<bar>"
proof -
  obtain nx ny where n: "pairNormal a b = (nx, ny)" by (cases "pairNormal a b")
  have u: "nx * nx + ny * ny = 1" using pairNormal_unit [OF assms(1)] by (simp add: n)
  define relN where "relN = (vx b - vx a) * nx + (vy b - vy a) * ny"
  define jimp where "jimp = - (1 + COLL_RESTITUTION) * relN / 2"
  have va: "vx (fst (pairCollide s a b)) = vx a - jimp * nx"
    "vy (fst (pairCollide s a b)) = vy a - jimp * ny"
    and vb: "vx (snd (pairCollide s a b)) = vx b + jimp * nx"
    "vy (snd (pairCollide s a b)) = vy b + jimp * ny"
    using assms(2) by (simp_all add: pairCollide_def Let_def n jimp_def relN_def)
  have "(vx (snd (pairCollide s a b)) - vx (fst (pairCollide s a b))) * nx
      + (vy (snd (pairCollide s a b)) - vy (fst (pairCollide s a b))) * ny
      = relN + 2 * jimp"
    unfolding va vb relN_def by (rule impulse_algebra [OF u])
  also have "\<dots> = - COLL_RESTITUTION * relN" by (simp add: jimp_def field_simps)
  finally have rel: "(vx (snd (pairCollide s a b)) - vx (fst (pairCollide s a b))) * nx
      + (vy (snd (pairCollide s a b)) - vy (fst (pairCollide s a b))) * ny
      = - COLL_RESTITUTION * relN" .
  have "\<bar>- COLL_RESTITUTION * relN\<bar> = COLL_RESTITUTION * \<bar>relN\<bar>"
    by (simp add: abs_mult COLL_RESTITUTION_def)
  then have ab: "\<bar>(vx (snd (pairCollide s a b)) - vx (fst (pairCollide s a b))) * nx
      + (vy (snd (pairCollide s a b)) - vy (fst (pairCollide s a b))) * ny\<bar>
      = COLL_RESTITUTION * \<bar>relN\<bar>"
    by (simp only: rel)
  show ?thesis
    unfolding n Let_def case_prod_beta split_conv fst_conv snd_conv
    using u va vb rel ab unfolding jimp_def relN_def by blast
qed


theorem pair_impulse_restitution_witness:
  "1 / 1000000 \<le> (x (tops stalled0 ! 1) - x (tops stalled0 ! 0)) * (x (tops stalled0 ! 1) - x (tops stalled0 ! 0))
        + (y (tops stalled0 ! 1) - y (tops stalled0 ! 0)) * (y (tops stalled0 ! 1) - y (tops stalled0 ! 0))
   \<and> (x (tops stalled0 ! 1) - x (tops stalled0 ! 0)) * (x (tops stalled0 ! 1) - x (tops stalled0 ! 0))
        + (y (tops stalled0 ! 1) - y (tops stalled0 ! 0)) * (y (tops stalled0 ! 1) - y (tops stalled0 ! 0))
       < (r (tops stalled0 ! 0) + r (tops stalled0 ! 1)) * (r (tops stalled0 ! 0) + r (tops stalled0 ! 1))
   \<and> (let (nx, ny) = pairNormal (tops stalled0 ! 0) (tops stalled0 ! 1);
           (a', b') = pairCollide defaultSettings (tops stalled0 ! 0) (tops stalled0 ! 1);
           relN = (vx (tops stalled0 ! 1) - vx (tops stalled0 ! 0)) * nx
                + (vy (tops stalled0 ! 1) - vy (tops stalled0 ! 0)) * ny;
           jimp = - (1 + COLL_RESTITUTION) * relN / 2
       in nx * nx + ny * ny = 1
          \<and> vx a' = vx (tops stalled0 ! 0) - jimp * nx \<and> vy a' = vy (tops stalled0 ! 0) - jimp * ny
          \<and> vx b' = vx (tops stalled0 ! 1) + jimp * nx \<and> vy b' = vy (tops stalled0 ! 1) + jimp * ny
          \<and> (vx b' - vx a') * nx + (vy b' - vy a') * ny = - COLL_RESTITUTION * relN
          \<and> \<bar>(vx b' - vx a') * nx + (vy b' - vy a') * ny\<bar> = COLL_RESTITUTION * \<bar>relN\<bar>)"
proof -
  have a: "1 / 1000000 \<le> (x (tops stalled0 ! 1) - x (tops stalled0 ! 0)) * (x (tops stalled0 ! 1) - x (tops stalled0 ! 0))
        + (y (tops stalled0 ! 1) - y (tops stalled0 ! 0)) * (y (tops stalled0 ! 1) - y (tops stalled0 ! 0))"
    by (simp add: stalled0_def topOnAxis_def)
  have b: "(x (tops stalled0 ! 1) - x (tops stalled0 ! 0)) * (x (tops stalled0 ! 1) - x (tops stalled0 ! 0))
        + (y (tops stalled0 ! 1) - y (tops stalled0 ! 0)) * (y (tops stalled0 ! 1) - y (tops stalled0 ! 0))
       < (r (tops stalled0 ! 0) + r (tops stalled0 ! 1)) * (r (tops stalled0 ! 0) + r (tops stalled0 ! 1))"
    by (simp add: stalled0_def topOnAxis_def)
  show ?thesis
    using pair_impulse_restitution [OF a b, of defaultSettings] a b by blast
qed

text \<open>
  Claim C6, as stated. For every pair resolved as colliding, the relative normal speed
  after the impulse is \<open>e\<close> times the one before. The centres of \<open>closeA\<close> and \<open>closeB\<close> are
  \<open>0.0005\<close> apart: the clamp makes the divisor \<open>0.001\<close> and the normal \<open>(0.5, 0)\<close>, and the
  relative normal speed goes from 5 to 2.75, not to \<open>0.8 * 5\<close>.
\<close>

theorem pair_impulse_clamped_counterexample:
  "(x closeB - x closeA) * (x closeB - x closeA) + (y closeB - y closeA) * (y closeB - y closeA)
     < (r closeA + r closeB) * (r closeA + r closeB)
   \<and> alive closeA \<and> alive closeB
   \<and> pairNormal closeA closeB = (1 / 2, 0)
   \<and> \<bar>(vx closeB - vx closeA) * (1 / 2) + (vy closeB - vy closeA) * 0\<bar> = 5
   \<and> \<bar>(vx (snd (pairCollide defaultSettings closeA closeB))
         - vx (fst (pairCollide defaultSettings closeA closeB))) * (1 / 2)
       + (vy (snd (pairCollide defaultSettings closeA closeB))
         - vy (fst (pairCollide defaultSettings closeA closeB))) * 0\<bar> = 11 / 4
   \<and> 11 / 4 \<noteq> COLL_RESTITUTION * (5 :: real)"
  by (simp add: pairNormal_close pairCollide_close_vx COLL_RESTITUTION_def)
     (simp add: closeA_def closeB_def topOnAxis_def)






section \<open>The claim about \<open>spawnTops\<close>\<close>

lemma rng_call_state: "rng_call (rng_state sd k) = (draw sd k, rng_state sd (Suc k))"
  by (rule prod_eqI) (simp_all only: fst_conv snd_conv draw_def rng_state_Suc snd_rng_call)

lemma spawnTop_state:
  "spawnTop rr st tR m i (rng_state sd k) =
     (\<lparr>id_str = id_str m, label = label m, color = color m,
       x = cos (real i * st + draw sd k * 0.2) * (rr * 0.85 + rr * 0.15 * draw sd (k + 1)),
       y = sin (real i * st + draw sd k * 0.2) * (rr * 0.85 + rr * 0.15 * draw sd (k + 1)),
       vx = cos (real i * st + draw sd k * 0.2 + pi + (draw sd (k + 3) - 0.5) * 0.6)
              * (120 + 80 * draw sd (k + 2)),
       vy = sin (real i * st + draw sd k * 0.2 + pi + (draw sd (k + 3) - 0.5) * 0.6)
              * (120 + 80 * draw sd (k + 2)),
       ang = real i * st + draw sd k * 0.2,
       vang = (draw sd (k + 4) - 0.5) * 14, r = tR, hp = 100, alive = True\<rparr>,
      rng_state sd (k + 5))"
proof -
  have n: "Suc k = k + 1" "Suc (k + 1) = k + 2" "Suc (k + 2) = k + 3" "Suc (k + 3) = k + 4"
    "Suc (k + 4) = k + 5"
    by simp_all
  have c: "rng_call (rng_state sd k) = (draw sd k, rng_state sd (k + 1))"
    "rng_call (rng_state sd (k + 1)) = (draw sd (k + 1), rng_state sd (k + 2))"
    "rng_call (rng_state sd (k + 2)) = (draw sd (k + 2), rng_state sd (k + 3))"
    "rng_call (rng_state sd (k + 3)) = (draw sd (k + 3), rng_state sd (k + 4))"
    "rng_call (rng_state sd (k + 4)) = (draw sd (k + 4), rng_state sd (k + 5))"
    by (simp_all only: rng_call_state n)
  show ?thesis
    by (simp only: spawnTop_def c Let_def split_conv)
qed

lemma spawnMap_nth:
  "length (fst (spawnMap rr st tR i (rng_state sd k) ms)) = length ms
   \<and> snd (spawnMap rr st tR i (rng_state sd k) ms) = rng_state sd (k + 5 * length ms)
   \<and> (\<forall>j<length ms. fst (spawnMap rr st tR i (rng_state sd k) ms) ! j
         = fst (spawnTop rr st tR (ms ! j) (i + j) (rng_state sd (k + 5 * j))))"
proof (induction ms arbitrary: i k)
  case Nil
  show ?case by simp
next
  case (Cons m ms)
  obtain tp where st: "spawnTop rr st tR m i (rng_state sd k) = (tp, rng_state sd (k + 5))"
    by (simp only: spawnTop_state)
  obtain rest t2 where rec: "spawnMap rr st tR (Suc i) (rng_state sd (k + 5)) ms = (rest, t2)"
    by (cases "spawnMap rr st tR (Suc i) (rng_state sd (k + 5)) ms")
  from Cons.IH [of "Suc i" "k + 5"] have
    ih1: "length rest = length ms"
    and ih2: "t2 = rng_state sd (k + 5 + 5 * length ms)"
    and ih3: "\<forall>j<length ms. rest ! j
         = fst (spawnTop rr st tR (ms ! j) (Suc i + j) (rng_state sd (k + 5 + 5 * j)))"
    by (simp_all add: rec)
  have e: "spawnMap rr st tR i (rng_state sd k) (m # ms) = (tp # rest, t2)"
    by (simp only: spawnMap.simps st rec Let_def split_conv)
  show ?case
  proof (intro conjI allI impI)
    show "length (fst (spawnMap rr st tR i (rng_state sd k) (m # ms))) = length (m # ms)"
      unfolding e by (simp add: ih1)
    show "snd (spawnMap rr st tR i (rng_state sd k) (m # ms))
        = rng_state sd (k + 5 * length (m # ms))"
      unfolding e by (simp add: ih2 add.assoc)
  next
    fix j assume "j < length (m # ms)"
    then show "fst (spawnMap rr st tR i (rng_state sd k) (m # ms)) ! j
        = fst (spawnTop rr st tR ((m # ms) ! j) (i + j) (rng_state sd (k + 5 * j)))"
    proof (cases j)
      case 0
      then show ?thesis unfolding e by (simp add: st)
    next
      case (Suc j')
      then have "j' < length ms" using \<open>j < length (m # ms)\<close> by simp
      then have "rest ! j' = fst (spawnTop rr st tR (ms ! j') (Suc i + j') (rng_state sd (k + 5 + 5 * j')))"
        using ih3 by simp
      moreover have "k + 5 + 5 * j' = k + 5 * Suc j'" by simp
      ultimately show ?thesis unfolding e by (simp add: Suc)
    qed
  qed
qed

lemma hypot_polar: "hypot (cos a * v) (sin a * v) = \<bar>v\<bar>"
proof -
  have ring: "(c * v) * (c * v) + (sn * v) * (sn * v) = (v * v) * (c * c + sn * sn)"
    for c sn :: real
    by (simp add: algebra_simps)
  have "(cos a * v) * (cos a * v) + (sin a * v) * (sin a * v)
      = (v * v) * (cos a * cos a + sin a * sin a)"
    by (rule ring)
  also have "\<dots> = v * v" by (simp only: sin_cos_squared_add3 mult_1_right)
  finally show ?thesis by (simp add: hypot_def)
qed

lemma mulberry32_state0: "mulberry32 sd = rng_state sd 0"
  by (simp add: rng_state_def)

text \<open>
  Claim C7. \<open>spawnTops\<close> builds one top per roster entry, in roster order, and the top at
  index \<open>i\<close> takes the draws number \<open>5 i + 1\<close> to \<open>5 i + 5\<close> of the one generator seeded
  by the settings, in the order angle jitter, radius fraction, speed, heading jitter,
  angular velocity (\<open>u 0\<close> to \<open>u 4\<close> below). The angle jitter lies in \<open>[0, 0.2)\<close>; the
  radial distance is \<open>0.85 rr + 0.15 rr u\<close> with \<open>rr = arenaR - topR - 6\<close> and \<open>u\<close> in
  \<open>[0, 1)\<close>; the speed, which is the length of the velocity, lies in \<open>[120, 200)\<close>.
\<close>

theorem spawnTops_draw_order:
  assumes "i < length movies"
  shows "let rf' = spawnTops movies s rf;
             tp = tops (simRef rf') ! i;
             u = (\<lambda>j. draw (seed s) (5 * i + j));
             rr = arenaR s - topR s - 6;
             a = real i * ((2 * pi) / real (max 1 (length movies))) + u 0 * 0.2;
             rad = rr * 0.85 + rr * 0.15 * u 1;
             speed = 120 + 80 * u 2;
             dir = a + pi + (u 3 - 0.5) * 0.6
         in length (tops (simRef rf')) = length movies
            \<and> rngRef rf' = Mulberry32 (rng_state (seed s) (5 * length movies))
            \<and> id_str tp = id_str (movies ! i) \<and> label tp = label (movies ! i)
            \<and> color tp = color (movies ! i)
            \<and> ang tp = a \<and> 0 \<le> u 0 * 0.2 \<and> u 0 * 0.2 < 0.2
            \<and> x tp = cos a * rad \<and> y tp = sin a * rad
            \<and> 0 \<le> u 1 \<and> u 1 < 1
            \<and> vx tp = cos dir * speed \<and> vy tp = sin dir * speed
            \<and> hypot (vx tp) (vy tp) = speed \<and> 120 \<le> speed \<and> speed < 200
            \<and> vang tp = (u 4 - 0.5) * 14
            \<and> r tp = topR s \<and> hp tp = 100 \<and> alive tp"
proof -
  let ?st = "(2 * pi) / real (max 1 (length movies))"
  let ?rr = "arenaR s - topR s - 6"
  let ?sm = "spawnMap ?rr ?st (topR s) 0 (rng_state (seed s) 0) movies"
  have tops: "tops (simRef (spawnTops movies s rf)) = fst ?sm"
    and rng: "rngRef (spawnTops movies s rf) = Mulberry32 (snd ?sm)"
    by (simp_all only: spawnTops_eq mulberry32_state0 refs.simps sim.simps)
  from spawnMap_nth [of ?rr ?st "topR s" 0 "seed s" 0 movies] assms have
    len: "length (fst ?sm) = length movies"
    and fin: "snd ?sm = rng_state (seed s) (5 * length movies)"
    and nth: "fst ?sm ! i = fst (spawnTop ?rr ?st (topR s) (movies ! i) i (rng_state (seed s) (5 * i)))"
    by simp_all
  have u0: "0 \<le> draw (seed s) (5 * i) \<and> draw (seed s) (5 * i) < 1"
    and u1: "0 \<le> draw (seed s) (5 * i + 1) \<and> draw (seed s) (5 * i + 1) < 1"
    and u2: "0 \<le> draw (seed s) (5 * i + 2) \<and> draw (seed s) (5 * i + 2) < 1"
    by (rule draw_range)+
  have sp: "\<bar>120 + 80 * draw (seed s) (5 * i + 2)\<bar> = 120 + 80 * draw (seed s) (5 * i + 2)"
    using u2 by simp
  show ?thesis
    unfolding Let_def tops rng nth fin spawnTop_state fst_conv
    using len u0 u1 u2 by (simp add: hypot_polar sp)
qed


theorem spawnTops_draw_order_witness:
  "(0::nat) < length [movieA, movieB]
   \<and> (let rf' = spawnTops [movieA, movieB] defaultSettings refs0;
           tp = tops (simRef rf') ! 0;
           u = (\<lambda>j. draw (seed defaultSettings) (5 * 0 + j));
           rr = arenaR defaultSettings - topR defaultSettings - 6;
           a = real (0::nat) * ((2 * pi) / real (max 1 (length [movieA, movieB]))) + u 0 * 0.2;
           rad = rr * 0.85 + rr * 0.15 * u 1;
           speed = 120 + 80 * u 2;
           dir = a + pi + (u 3 - 0.5) * 0.6
       in length (tops (simRef rf')) = length [movieA, movieB]
          \<and> rngRef rf' = Mulberry32 (rng_state (seed defaultSettings) (5 * length [movieA, movieB]))
          \<and> id_str tp = id_str ([movieA, movieB] ! 0) \<and> label tp = label ([movieA, movieB] ! 0)
          \<and> color tp = color ([movieA, movieB] ! 0)
          \<and> ang tp = a \<and> 0 \<le> u 0 * 0.2 \<and> u 0 * 0.2 < 0.2
          \<and> x tp = cos a * rad \<and> y tp = sin a * rad
          \<and> 0 \<le> u 1 \<and> u 1 < 1
          \<and> vx tp = cos dir * speed \<and> vy tp = sin dir * speed
          \<and> hypot (vx tp) (vy tp) = speed \<and> 120 \<le> speed \<and> speed < 200
          \<and> vang tp = (u 4 - 0.5) * 14
          \<and> r tp = topR defaultSettings \<and> hp tp = 100 \<and> alive tp)
   \<and> draw (seed defaultSettings) 0 = 792042790 / 4294967296"
proof -
  have h: "(0::nat) < length [movieA, movieB]" by simp
  have d: "draw (seed defaultSettings) 0 = 792042790 / 4294967296"
    by (simp add: defaultSettings_def draw_1337)
  show ?thesis
    using spawnTops_draw_order [OF h, of defaultSettings refs0] h d by blast
qed

section \<open>The claim about the divisions of a physics step\<close>




end
